theory Spec2Isabelle
  imports
    Complex_Main
    "HOL-Library.Multiset"
    "HOL-Library.FSet"
    "HOL-Library.AList"
    "HOL-Library.Char_ord"
    "HOL-Library.List_Lexorder"
    "HOL-Library.Product_Lexorder"
    "HOL-Library.Log_Nat"
begin

section \<open>Proportional approval voting: the embedding\<close>

text \<open>
  The module \<^verbatim>\<open>axvoting/cardinal/approval/proportional.py\<close> is embedded function by
  function. Python exceptions are values of \<open>py_error\<close>; a function that may raise
  returns \<open>py_error + 'a\<close>. For the election, Python's \<^verbatim>\<open>float\<close> is modelled by \<open>real\<close>:
  sums and comparisons of scores are exact. What rounding does to the
  apportionment weights is the subject of \<open>dv_in\<close> and \<open>v_in\<close> below, where the
  arithmetic is a parameter and \<open>round64\<close> is the one of the program. A candidate is a
  string, ordered as Python orders \<^verbatim>\<open>str\<close> (lexicographically, a proper prefix
  first); a tuple of candidates is a list, ordered the same way.
\<close>

subsection \<open>Exceptions\<close>

datatype py_error =
  ValueError | KeyError | TypeError | IndexError | RuntimeError | OverflowError

type_synonym Candidate = string

subsection \<open>Apportionment methods\<close>

text \<open>
  The concrete subclasses of \<^verbatim>\<open>ApportionmentMethod\<close> that the module defines. The
  election holds the class itself (\<^verbatim>\<open>type[ApportionmentMethod]\<close>), so a method is a tag.
\<close>

datatype ApportionmentMethod =
  SainteLagueApportionmentMethod
  | SainteLague12ApportionmentMethod
  | SainteLague14ApportionmentMethod

text \<open>The classmethod \<^verbatim>\<open>dv\<close> of each subclass (lines 57-64, 71-80, 87-96).\<close>

fun dv :: "ApportionmentMethod \<Rightarrow> int \<Rightarrow> py_error + real" where
  "dv SainteLagueApportionmentMethod index =
     (if index < 0 then Inl ValueError
      else if index = 0 then Inr 0
      else Inr (1 / (- 1 + 2 * real_of_int index)))"
| "dv SainteLague12ApportionmentMethod index =
     (if index < 0 then Inl ValueError
      else if index = 0 then Inr 0
      else if index = 1 then Inr (1 / 1.2)
      else Inr (1 / (- 1 + 2 * real_of_int index)))"
| "dv SainteLague14ApportionmentMethod index =
     (if index < 0 then Inl ValueError
      else if index = 0 then Inr 0
      else if index = 1 then Inr (1 / 1.4)
      else Inr (1 / (- 1 + 2 * real_of_int index)))"

text \<open>
  \<^verbatim>\<open>sum(cls.dv(i) for i in range(1, index + 1))\<close> in exact arithmetic: the generator
  is consumed from the left, the running total starts at 0, and an exception of
  \<^verbatim>\<open>dv\<close> ends the sum.
\<close>

fun sum_dv :: "ApportionmentMethod \<Rightarrow> int list \<Rightarrow> real \<Rightarrow> py_error + real" where
  "sum_dv cls [] acc = Inr acc"
| "sum_dv cls (i # rest) acc =
     (case dv cls i of
        Inl err \<Rightarrow> Inl err
      | Inr x \<Rightarrow> sum_dv cls rest (acc + x))"

text \<open>The inherited classmethod \<^verbatim>\<open>v\<close> (lines 29-36); no subclass overrides it.\<close>

definition v :: "ApportionmentMethod \<Rightarrow> int \<Rightarrow> py_error + real" where
  "v cls index =
     (if index < 0 then Inl ValueError
      else if index = 0 then Inr 0
      else sum_dv cls [1..index] 0)"

text \<open>
  \<^verbatim>\<open>from_name\<close> (lines 38-52): a dictionary literal indexed by the name; a missing
  key raises \<^verbatim>\<open>KeyError\<close>.
\<close>

definition from_name_table :: "(string \<times> ApportionmentMethod) list" where
  "from_name_table =
     [(''sainte_lague'', SainteLagueApportionmentMethod),
      (''sainte_lague_1_2'', SainteLague12ApportionmentMethod),
      (''sainte_lague_1_4'', SainteLague14ApportionmentMethod)]"

definition from_name :: "string \<Rightarrow> py_error + ApportionmentMethod" where
  "from_name name =
     (case map_of from_name_table name of
        None \<Rightarrow> Inl KeyError
      | Some cls \<Rightarrow> Inr cls)"

subsection \<open>Apportionment methods in rounded arithmetic\<close>

text \<open>
  A finite binary64 value is the rational it denotes. \<open>round64\<close> rounds a rational
  to the nearest such value, a tie going to the even significand: 53 significant
  bits for magnitudes from \<^verbatim>\<open>2**-1022\<close> on, the fixed spacing \<^verbatim>\<open>2**-1074\<close> below.
  Overflow to infinity is left out: the only place of the module where a
  magnitude can reach \<^verbatim>\<open>2**1024\<close> is the conversion of an integer, which raises
  instead.
\<close>

definition pow2 :: "int \<Rightarrow> rat" where
  "pow2 k = (if 0 \<le> k then 2 ^ nat k else 1 / 2 ^ nat (- k))"


text \<open>For \<open>x \<noteq> 0\<close>, the \<open>k\<close> with \<open>pow2 k \<le> |x| < pow2 (k + 1)\<close>.\<close>

definition binade :: "rat \<Rightarrow> int" where
  "binade x =
     (case quotient_of \<bar>x\<bar> of
        (p, q) \<Rightarrow>
          (let d = bitlen p - bitlen q
           in if pow2 d \<le> \<bar>x\<bar> then d else d - 1))"


text \<open>
  \<^verbatim>\<open>1. / n\<close> with an integer \<open>n\<close> first converts \<open>n\<close> to a float, correctly rounded;
  the conversion raises \<^verbatim>\<open>OverflowError\<close> when the result is out of range, that is
  when its magnitude reaches \<^verbatim>\<open>2**1024\<close>.
\<close>

definition int_to_float :: "(rat \<Rightarrow> rat) \<Rightarrow> int \<Rightarrow> py_error + rat" where
  "int_to_float rnd n =
     (let x = rnd (of_int n)
      in if x \<noteq> 0 \<and> 1024 \<le> binade x then Inl OverflowError else Inr x)"

text \<open>In exact arithmetic an integer converts when its magnitude is below this bound.\<close>

definition float_int_limit :: int where
  "float_int_limit = 2 ^ 1024"

text \<open>
  The classmethods \<^verbatim>\<open>dv\<close> again (lines 57-64, 71-80, 87-96), every float
  operation and every float literal rounded by \<open>rnd\<close>: \<open>round64\<close> gives the values
  the program computes, the identity gives exact arithmetic.
\<close>

fun dv_in :: "(rat \<Rightarrow> rat) \<Rightarrow> ApportionmentMethod \<Rightarrow> int \<Rightarrow> py_error + rat" where
  "dv_in rnd SainteLagueApportionmentMethod index =
     (if index < 0 then Inl ValueError
      else if index = 0 then Inr 0
      else (case int_to_float rnd (- 1 + 2 * index) of
              Inl err \<Rightarrow> Inl err
            | Inr d \<Rightarrow> Inr (rnd (1 / d))))"
| "dv_in rnd SainteLague12ApportionmentMethod index =
     (if index < 0 then Inl ValueError
      else if index = 0 then Inr 0
      else if index = 1 then Inr (rnd (1 / rnd (12 / 10)))
      else (case int_to_float rnd (- 1 + 2 * index) of
              Inl err \<Rightarrow> Inl err
            | Inr d \<Rightarrow> Inr (rnd (1 / d))))"
| "dv_in rnd SainteLague14ApportionmentMethod index =
     (if index < 0 then Inl ValueError
      else if index = 0 then Inr 0
      else if index = 1 then Inr (rnd (1 / rnd (14 / 10)))
      else (case int_to_float rnd (- 1 + 2 * index) of
              Inl err \<Rightarrow> Inl err
            | Inr d \<Rightarrow> Inr (rnd (1 / d))))"

text \<open>
  The built-in \<^verbatim>\<open>sum\<close> on floats, as CPython computes it from version 3.12 on (the
  \<^verbatim>\<open>type\<close> statement of line 17 needs 3.12). The start value, the integer 0, and
  the first item are added plainly. From then on \<^verbatim>\<open>f_result\<close> is the running sum
  and \<^verbatim>\<open>c\<close> collects what each addition rounded away (Neumaier's compensation):
  \<^verbatim>\<open>t = f_result + x;
  if (fabs(f_result) >= fabs(x)) c += (f_result - t) + x;
  else c += (x - t) + f_result;
  f_result = t;\<close>
  and at the end \<^verbatim>\<open>c\<close>, when it is not zero, is added to \<^verbatim>\<open>f_result\<close>.
\<close>

fun compensated :: "(rat \<Rightarrow> rat) \<Rightarrow> rat list \<Rightarrow> rat \<Rightarrow> rat \<Rightarrow> rat" where
  "compensated rnd [] f_result c = (if c \<noteq> 0 then rnd (f_result + c) else f_result)"
| "compensated rnd (x # rest) f_result c =
     (let t = rnd (f_result + x);
          c' = (if \<bar>x\<bar> \<le> \<bar>f_result\<bar> then rnd (c + rnd (rnd (f_result - t) + x))
                else rnd (c + rnd (rnd (x - t) + f_result)))
      in compensated rnd rest t c')"

definition builtin_sum :: "(rat \<Rightarrow> rat) \<Rightarrow> rat list \<Rightarrow> rat" where
  "builtin_sum rnd xs =
     (case xs of
        [] \<Rightarrow> 0
      | x # rest \<Rightarrow> compensated rnd rest (rnd (0 + x)) 0)"

text \<open>
  What the generator \<^verbatim>\<open>cls.dv(i) for i in range(1, index + 1)\<close> yields; the first
  exception of \<^verbatim>\<open>dv\<close> is the one that \<^verbatim>\<open>sum\<close> lets through.
\<close>

fun dv_items ::
  "(rat \<Rightarrow> rat) \<Rightarrow> ApportionmentMethod \<Rightarrow> int list \<Rightarrow> py_error + rat list" where
  "dv_items rnd cls [] = Inr []"
| "dv_items rnd cls (i # rest) =
     (case dv_in rnd cls i of
        Inl err \<Rightarrow> Inl err
      | Inr x \<Rightarrow>
          (case dv_items rnd cls rest of
             Inl err \<Rightarrow> Inl err
           | Inr xs \<Rightarrow> Inr (x # xs)))"

text \<open>The inherited classmethod \<^verbatim>\<open>v\<close> (lines 29-36) in the arithmetic \<open>rnd\<close>.\<close>

definition v_in :: "(rat \<Rightarrow> rat) \<Rightarrow> ApportionmentMethod \<Rightarrow> int \<Rightarrow> py_error + rat" where
  "v_in rnd cls index =
     (if index < 0 then Inl ValueError
      else if index = 0 then Inr 0
      else (case dv_items rnd cls [1..index] of
              Inl err \<Rightarrow> Inl err
            | Inr xs \<Rightarrow> Inr (builtin_sum rnd xs)))"

subsection \<open>The election: configuration and state\<close>

text \<open>
  The dataclass \<^verbatim>\<open>Election\<close> (lines 107-121). \<^verbatim>\<open>self.ballots\<close> is a dictionary,
  which Python iterates in insertion order: an association list with distinct
  keys, new keys appended. \<^verbatim>\<open>self.ballot_to_indexes\<close> is a \<^verbatim>\<open>defaultdict(list)\<close> that
  is only ever indexed, never iterated: a map. A ballot is a finite set of
  candidates.
\<close>

record Election =
  committee_size :: int
  apportionment_method :: ApportionmentMethod
  choices :: "Candidate fset option"
  ballots :: "(int \<times> Candidate fset) list"
  ballot_to_indexes :: "Candidate list \<rightharpoonup> int list"
  counter :: int

text \<open>The generated constructor followed by \<^verbatim>\<open>__post_init__\<close> (lines 117-121).\<close>

definition new_Election ::
  "int \<Rightarrow> ApportionmentMethod \<Rightarrow> Candidate fset option \<Rightarrow> Election" where
  "new_Election csize cls chs =
     \<lparr>committee_size = csize, apportionment_method = cls, choices = chs,
      ballots = [], ballot_to_indexes = Map.empty, counter = 0\<rparr>"

text \<open>
  \<^verbatim>\<open>cast_ballot\<close> (lines 123-133). The argument is any iterable of candidates, here
  the list of what it yields. The check of line 127 comes before every
  assignment, so a raise leaves the state as it was.
\<close>

definition cast_ballot ::
  "Candidate list \<Rightarrow> Election \<Rightarrow> (py_error + int) \<times> Election" where
  "cast_ballot approves e =
     (let approves_set = fset_of_list approves;
          ballot_index = counter e
      in if ballot_index \<in> fst ` set (ballots e) then (Inl RuntimeError, e)
         else
           (let key = sorted_list_of_fset approves_set;
                indexes = (case ballot_to_indexes e key of None \<Rightarrow> [] | Some l \<Rightarrow> l)
            in (Inr ballot_index,
                e\<lparr>ballots := AList.update ballot_index approves_set (ballots e),
                  ballot_to_indexes := (ballot_to_indexes e)(key \<mapsto> indexes @ [ballot_index]),
                  counter := counter e + 1\<rparr>)))"

text \<open>The parameter of \<^verbatim>\<open>remove_ballot\<close> is annotated \<^verbatim>\<open>Ballot | int\<close>.\<close>

datatype ballot_arg = BallotSet "Candidate fset" | BallotIndex int

text \<open>
  Line 137, \<^verbatim>\<open>isinstance(ballot, Ballot)\<close>. Line 17 declares \<^verbatim>\<open>Ballot\<close> with a
  \<^verbatim>\<open>type\<close> statement, which binds the name to a type-alias object and not to a
  class; \<^verbatim>\<open>isinstance\<close> raises \<^verbatim>\<open>TypeError\<close> when its second argument is not a class,
  a tuple of classes or a union, whatever the first argument is.
\<close>

definition isinstance_Ballot :: "ballot_arg \<Rightarrow> py_error + bool" where
  "isinstance_Ballot ballot = Inl TypeError"

text \<open>
  Lines 143-144. \<^verbatim>\<open>del self.ballots[ballot_index]\<close> raises \<^verbatim>\<open>KeyError\<close> for a missing
  key. In \<^verbatim>\<open>del self.ballot_to_indexes[ballot_value]\<close> the key \<^verbatim>\<open>ballot_value\<close> is a
  set on both paths that reach it (the argument itself, or the stored ballot),
  and hashing a set raises \<^verbatim>\<open>TypeError\<close> before any entry is looked at: the
  statement never deletes, and by then the ballot is gone from \<^verbatim>\<open>self.ballots\<close>.
\<close>

definition delete_entries :: "int \<Rightarrow> Election \<Rightarrow> (py_error + unit) \<times> Election" where
  "delete_entries ballot_index e =
     (if ballot_index \<notin> fst ` set (ballots e) then (Inl KeyError, e)
      else (Inl TypeError, e\<lparr>ballots := AList.delete ballot_index (ballots e)\<rparr>))"

text \<open>
  Lines 138-144, for either outcome of the test of line 137. Indexing the
  \<^verbatim>\<open>defaultdict\<close> with a missing key stores an empty list under it and returns
  that list, whose \<^verbatim>\<open>[-1]\<close> raises \<^verbatim>\<open>IndexError\<close>. \<^verbatim>\<open>sorted\<close> of an integer and
  \<^verbatim>\<open>self.ballots[ballot]\<close> with a set as the key raise \<^verbatim>\<open>TypeError\<close>.
\<close>

definition remove_ballot_body ::
  "bool \<Rightarrow> ballot_arg \<Rightarrow> Election \<Rightarrow> (py_error + unit) \<times> Election" where
  "remove_ballot_body is_ballot ballot e =
     (if is_ballot then
        (case ballot of
           BallotIndex i \<Rightarrow> (Inl TypeError, e)
         | BallotSet s \<Rightarrow>
             (let key = sorted_list_of_fset s in
              case ballot_to_indexes e key of
                None \<Rightarrow>
                  (Inl IndexError, e\<lparr>ballot_to_indexes := (ballot_to_indexes e)(key \<mapsto> [])\<rparr>)
              | Some indexes \<Rightarrow>
                  if indexes = [] then (Inl IndexError, e)
                  else delete_entries (last indexes) e))
      else
        (case ballot of
           BallotSet s \<Rightarrow> (Inl TypeError, e)
         | BallotIndex i \<Rightarrow>
             (case map_of (ballots e) i of
                None \<Rightarrow> (Inl KeyError, e)
              | Some ballot_value \<Rightarrow> delete_entries i e)))"

text \<open>\<^verbatim>\<open>remove_ballot\<close> (lines 135-144).\<close>

definition remove_ballot :: "ballot_arg \<Rightarrow> Election \<Rightarrow> (py_error + unit) \<times> Election" where
  "remove_ballot ballot e =
     (case isinstance_Ballot ballot of
        Inl err \<Rightarrow> (Inl err, e)
      | Inr is_ballot \<Rightarrow> remove_ballot_body is_ballot ballot e)"

subsection \<open>Computing the result\<close>

text \<open>
  Lines 154-159: the union of all stored ballots, intersected with
  \<^verbatim>\<open>self.choices\<close> when that is set. Both in-place operators act on the fresh local
  set, never on a stored ballot or on \<^verbatim>\<open>self.choices\<close>.
\<close>

definition actual_choices :: "Election \<Rightarrow> Candidate fset" where
  "actual_choices e = fold (\<lambda>ballot acc. acc |\<union>| ballot) (map snd (ballots e)) {||}"

definition choices_of :: "Election \<Rightarrow> Candidate fset" where
  "choices_of e =
     (case choices e of
        None \<Rightarrow> actual_choices e
      | Some chs \<Rightarrow> actual_choices e |\<inter>| chs)"

text \<open>
  Iterating a Python set yields each member once, in an order that depends on
  the hashes of the strings. \<open>iteration_of pool s\<close> says that \<open>pool\<close> is one such
  order for the set \<open>s\<close>.
\<close>

definition iteration_of :: "Candidate list \<Rightarrow> Candidate fset \<Rightarrow> bool" where
  "iteration_of pool s \<longleftrightarrow> distinct pool \<and> fset_of_list pool = s"

text \<open>
  \<^verbatim>\<open>itertools.combinations(pool, r)\<close>: the \<open>r\<close>-element subsequences of the pool in
  lexicographic order of their positions; a negative \<open>r\<close> raises \<^verbatim>\<open>ValueError\<close>.
\<close>

fun combinations_nat :: "'a list \<Rightarrow> nat \<Rightarrow> 'a list list" where
  "combinations_nat pool 0 = [[]]"
| "combinations_nat [] (Suc r) = []"
| "combinations_nat (x # pool) (Suc r) =
     map ((#) x) (combinations_nat pool r) @ combinations_nat pool (Suc r)"

definition combinations :: "'a list \<Rightarrow> int \<Rightarrow> py_error + 'a list list" where
  "combinations pool r =
     (if r < 0 then Inl ValueError else Inr (combinations_nat pool (nat r)))"

text \<open>The inner loop, lines 163-167.\<close>

fun committee_score ::
  "ApportionmentMethod \<Rightarrow> Candidate fset list \<Rightarrow> Candidate fset \<Rightarrow> real \<Rightarrow> py_error + real" where
  "committee_score cls [] committee_candidate_set acc = Inr acc"
| "committee_score cls (ballot # rest) committee_candidate_set acc =
     (case v cls (int (fcard (ballot |\<inter>| committee_candidate_set))) of
        Inl err \<Rightarrow> Inl err
      | Inr w \<Rightarrow> committee_score cls rest committee_candidate_set (acc + w))"

text \<open>
  Lines 169-171, \<^verbatim>\<open>best.setdefault(score, []).append(committee)\<close> on a dictionary
  in insertion order.
\<close>

fun setdefault_append ::
  "real \<Rightarrow> Candidate list \<Rightarrow> (real \<times> Candidate list list) list
     \<Rightarrow> (real \<times> Candidate list list) list" where
  "setdefault_append score c [] = [(score, [c])]"
| "setdefault_append score c ((k, cs) # rest) =
     (if k = score then (k, cs @ [c]) # rest
      else (k, cs) # setdefault_append score c rest)"

text \<open>The outer loop, lines 161-171.\<close>

fun score_committees ::
  "Election \<Rightarrow> Candidate list list \<Rightarrow> (real \<times> Candidate list list) list
     \<Rightarrow> py_error + (real \<times> Candidate list list) list" where
  "score_committees e [] best = Inr best"
| "score_committees e (committee_candidate # rest) best =
     (case committee_score (apportionment_method e) (map snd (ballots e))
             (fset_of_list committee_candidate) 0 of
        Inl err \<Rightarrow> Inl err
      | Inr committee_score_value \<Rightarrow>
          score_committees e rest
            (setdefault_append committee_score_value (sort committee_candidate) best))"

text \<open>Line 172, \<^verbatim>\<open>sorted(keys, reverse=True)\<close>.\<close>

definition sorted_reverse :: "real list \<Rightarrow> real list" where
  "sorted_reverse xs = rev (sort xs)"

text \<open>
  Lines 175-180, the two chained generators; \<^verbatim>\<open>best[score]\<close> raises \<^verbatim>\<open>KeyError\<close> for
  a missing key.
\<close>

fun chain_committees ::
  "(real \<times> Candidate list list) list \<Rightarrow> real list \<Rightarrow> py_error + Candidate list list" where
  "chain_committees best [] = Inr []"
| "chain_committees best (score # rest) =
     (case map_of best score of
        None \<Rightarrow> Inl KeyError
      | Some cs \<Rightarrow>
          (case chain_committees best rest of
             Inl err \<Rightarrow> Inl err
           | Inr later \<Rightarrow> Inr (cs @ later)))"

fun chain_scores ::
  "(real \<times> Candidate list list) list \<Rightarrow> real list \<Rightarrow> py_error + real list" where
  "chain_scores best [] = Inr []"
| "chain_scores best (score # rest) =
     (case map_of best score of
        None \<Rightarrow> Inl KeyError
      | Some cs \<Rightarrow>
          (case chain_scores best rest of
             Inl err \<Rightarrow> Inl err
           | Inr later \<Rightarrow> Inr (replicate (length cs) score @ later)))"

text \<open>
  The data frame is the list of its rows, a row being the pair of the
  \<^verbatim>\<open>committees\<close> and the \<^verbatim>\<open>scores\<close> cell. The constructor raises \<^verbatim>\<open>ValueError\<close> for
  columns of different lengths. \<^verbatim>\<open>sort_values\<close> with
  \<^verbatim>\<open>by=["scores", "committees"], ascending=[False, True]\<close> orders the rows by
  falling score, then by rising committee tuple.
\<close>

type_synonym DataFrame = "(Candidate list \<times> real) list"

definition DataFrame :: "Candidate list list \<Rightarrow> real list \<Rightarrow> py_error + DataFrame" where
  "DataFrame committees scores =
     (if length committees \<noteq> length scores then Inl ValueError
      else Inr (zip committees scores))"

definition sort_values :: "DataFrame \<Rightarrow> DataFrame" where
  "sort_values rows = sort_key (\<lambda>(c, s). (- s, c)) rows"

text \<open>Lines 172-185: from the dictionary of scored committees to the sorted frame.\<close>

definition result_frame :: "(real \<times> Candidate list list) list \<Rightarrow> py_error + DataFrame" where
  "result_frame best =
     (let scores = sorted_reverse (map fst best) in
      case chain_committees best scores of
        Inl err \<Rightarrow> Inl err
      | Inr committees_column \<Rightarrow>
          (case chain_scores best scores of
             Inl err \<Rightarrow> Inl err
           | Inr scores_column \<Rightarrow>
               (case DataFrame committees_column scores_column of
                  Inl err \<Rightarrow> Inl err
                | Inr frame \<Rightarrow> Inr (sort_values frame))))"

text \<open>
  \<^verbatim>\<open>get_result\<close> (lines 146-185). The first argument is the order in which line
  161 iterates the local set \<^verbatim>\<open>choices\<close>. Like the other two methods it returns
  the election it leaves behind; no statement of it assigns to a field of
  \<^verbatim>\<open>self\<close> or updates one of the stored sets.
\<close>

definition get_result ::
  "Candidate list \<Rightarrow> Election \<Rightarrow> (py_error + DataFrame) \<times> Election" where
  "get_result pool e =
     (case combinations pool (committee_size e) of
        Inl err \<Rightarrow> (Inl err, e)
      | Inr combos \<Rightarrow>
          (case score_committees e combos [] of
             Inl err \<Rightarrow> (Inl err, e)
           | Inr best \<Rightarrow> (result_frame best, e)))"

subsection \<open>Sequences of operations\<close>

text \<open>
  A caller that casts and removes ballots one after the other on the same
  election, catching what an operation raises and going on with the election
  as that operation left it.
\<close>

datatype operation = Cast "Candidate list" | Remove ballot_arg

fun apply_operation :: "operation \<Rightarrow> Election \<Rightarrow> (py_error + int option) \<times> Election" where
  "apply_operation (Cast approves) e =
     (case cast_ballot approves e of
        (Inl err, e') \<Rightarrow> (Inl err, e')
      | (Inr ballot_index, e') \<Rightarrow> (Inr (Some ballot_index), e'))"
| "apply_operation (Remove ballot) e =
     (case remove_ballot ballot e of
        (Inl err, e') \<Rightarrow> (Inl err, e')
      | (Inr u, e') \<Rightarrow> (Inr None, e'))"

fun run_operations ::
  "operation list \<Rightarrow> Election \<Rightarrow> (operation \<times> (py_error + int option)) list" where
  "run_operations [] e = []"
| "run_operations (oper # rest) e =
     (case apply_operation oper e of
        (r, e') \<Rightarrow> (oper, r) # run_operations rest e')"

text \<open>The identities that the calls of \<^verbatim>\<open>cast_ballot\<close> returned, in the order of the calls.\<close>

fun cast_identities :: "(operation \<times> (py_error + int option)) list \<Rightarrow> int list" where
  "cast_identities [] = []"
| "cast_identities ((Cast approves, Inr (Some ballot_index)) # rest) =
     ballot_index # cast_identities rest"
| "cast_identities (other # rest) = cast_identities rest"

subsection \<open>Auxiliary notions for the proofs\<close>

text \<open>No stored identity has reached the counter.\<close>

definition identities_below_counter :: "Election \<Rightarrow> bool" where
  "identities_below_counter e \<longleftrightarrow> list_all (\<lambda>i. i < counter e) (map fst (ballots e))"

text \<open>The score of a committee, 0 standing for a raise (which never happens).\<close>

definition score_value :: "Election \<Rightarrow> Candidate list \<Rightarrow> real" where
  "score_value e committee_candidate =
     (case committee_score (apportionment_method e) (map snd (ballots e))
             (fset_of_list committee_candidate) 0 of
        Inl err \<Rightarrow> 0
      | Inr s \<Rightarrow> s)"

definition scored :: "Election \<Rightarrow> Candidate list \<Rightarrow> Candidate list \<times> real" where
  "scored e committee_candidate = (sort committee_candidate, score_value e committee_candidate)"

text \<open>The rows that a dictionary of scored committees stands for.\<close>

definition rows_of :: "(real \<times> Candidate list list) list \<Rightarrow> DataFrame" where
  "rows_of best = concat (map (\<lambda>(s, cs). map (\<lambda>c. (c, s)) cs) best)"

text \<open>The order of \<^verbatim>\<open>sort_values\<close> on two rows.\<close>

definition row_before :: "Candidate list \<times> real \<Rightarrow> Candidate list \<times> real \<Rightarrow> bool" where
  "row_before r1 r2 \<longleftrightarrow> snd r2 < snd r1 \<or> (snd r1 = snd r2 \<and> fst r1 \<le> fst r2)"

text \<open>An election with three ballots, one of them empty, and a tie at the top.\<close>

definition three_ballots :: Election where
  "three_ballots =
     \<lparr>committee_size = 2, apportionment_method = SainteLagueApportionmentMethod, choices = None,
      ballots = [(0, {|''A'', ''B''|}), (1, {|''B'', ''C''|}), (2, {||})],
      ballot_to_indexes = [[''A'', ''B''] \<mapsto> [0], [''B'', ''C''] \<mapsto> [1], [] \<mapsto> [2]],
      counter = 3\<rparr>"

section \<open>Apportionment methods: properties\<close>

lemma dv_case_nonneg:
  "0 \<le> index \<Longrightarrow> (case dv cls index of Inl err \<Rightarrow> False | Inr x \<Rightarrow> 0 \<le> x)"
  by (cases cls) simp_all

lemma dv_nonneg_index:
  "0 \<le> index \<Longrightarrow> \<exists>x. dv cls index = Inr x \<and> 0 \<le> x"
  using dv_case_nonneg [of index cls] by (cases "dv cls index") simp_all

lemma sum_dv_append:
  "sum_dv cls (xs @ ys) acc =
     (case sum_dv cls xs acc of Inl err \<Rightarrow> Inl err | Inr t \<Rightarrow> sum_dv cls ys t)"
  by (induction xs arbitrary: acc) (auto split: sum.splits)

lemma sum_dv_returns:
  "\<forall>i \<in> set xs. 0 \<le> i \<Longrightarrow> 0 \<le> acc \<Longrightarrow> \<exists>t. sum_dv cls xs acc = Inr t \<and> 0 \<le> t"
proof (induction xs arbitrary: acc)
  case Nil
  then show ?case by simp
next
  case (Cons i rest)
  from Cons.prems obtain x where x: "dv cls i = Inr x" "0 \<le> x"
    using dv_nonneg_index [of i cls] by auto
  with Cons.prems have "0 \<le> acc + x" by simp
  with Cons.IH [of "acc + x"] Cons.prems x show ?case by simp
qed

lemma v_returns:
  "0 \<le> index \<Longrightarrow> \<exists>t. v cls index = Inr t \<and> 0 \<le> t"
proof -
  assume "0 \<le> index"
  have "\<exists>t. sum_dv cls [1..index] 0 = Inr t \<and> 0 \<le> t"
    by (rule sum_dv_returns) auto
  with \<open>0 \<le> index\<close> show ?thesis by (auto simp: v_def)
qed

lemma v_zero: "v cls 0 = Inr 0"
  by (simp add: v_def)

subsection \<open>Exact arithmetic\<close>

lemma pow2_powi: "pow2 k = 2 powi k"
  by (simp add: pow2_def power_int_def inverse_eq_divide power_one_over)

lemma pow2_pos: "0 < pow2 k"
  by (simp add: pow2_powi)

lemma pow2_diff: "pow2 (a - b) = pow2 a / pow2 b"
  by (simp add: pow2_powi power_int_diff)

lemma pow2_mono: "a \<le> b \<Longrightarrow> pow2 a \<le> pow2 b"
  by (simp add: pow2_powi power_int_increasing)

lemma pow2_nat: "pow2 (int n) = 2 ^ n"
  by (simp add: pow2_def)

lemma binade_bounds:
  assumes "x \<noteq> 0"
  shows "pow2 (binade x) \<le> \<bar>x\<bar> \<and> \<bar>x\<bar> < pow2 (binade x + 1)"
proof -
  obtain p q where pq: "quotient_of \<bar>x\<bar> = (p, q)" by (cases "quotient_of \<bar>x\<bar>")
  then have q: "0 < q" and x: "\<bar>x\<bar> = of_int p / of_int q"
    by (rule quotient_of_denom_pos, rule quotient_of_div)
  from assms have "0 < \<bar>x\<bar>" by simp
  with x q have p: "0 < p" by (simp add: zero_less_divide_iff)
  let ?d = "bitlen p - bitlen q"
  from bitlen_bounds [OF p] have bp: "2 ^ nat (bitlen p - 1) \<le> p" "p < 2 ^ nat (bitlen p)"
    by simp_all
  from bitlen_bounds [OF q] have bq: "2 ^ nat (bitlen q - 1) \<le> q" "q < 2 ^ nat (bitlen q)"
    by simp_all
  from p q have b1: "1 \<le> bitlen p" "1 \<le> bitlen q"
    using bitlen_eq_zero_iff bitlen_nonneg
    by (metis add_0 linorder_not_less zless_imp_add1_zle not_less_iff_gr_or_eq)+
  have int_pow: "pow2 k \<le> of_int m \<longleftrightarrow> 2 ^ nat k \<le> m"
      "of_int m < pow2 k \<longleftrightarrow> m < 2 ^ nat k" if "0 \<le> k" for k m
  proof -
    from that have "pow2 k = of_int (2 ^ nat k)" by (simp add: pow2_def)
    then show "pow2 k \<le> of_int m \<longleftrightarrow> 2 ^ nat k \<le> m"
      "of_int m < pow2 k \<longleftrightarrow> m < 2 ^ nat k"
      by (simp_all only: of_int_le_iff of_int_less_iff)
  qed
  have rp: "pow2 (bitlen p - 1) \<le> of_int p" "of_int p < pow2 (bitlen p)"
    using bp b1 by (simp_all add: int_pow)
  have rq: "pow2 (bitlen q - 1) \<le> of_int q" "of_int q < pow2 (bitlen q)"
    using bq b1 by (simp_all add: int_pow)
  have qpos: "(0::rat) < of_int q" using q by simp
  have lo: "pow2 (?d - 1) < \<bar>x\<bar>"
  proof -
    have "pow2 (?d - 1) = pow2 (bitlen p - 1) / pow2 (bitlen q)"
      by (simp add: pow2_diff [symmetric] algebra_simps)
    also have "\<dots> \<le> of_int p / pow2 (bitlen q)"
      by (intro divide_right_mono) (simp_all add: rp less_imp_le pow2_pos)
    also have "\<dots> < of_int p / of_int q"
      by (intro divide_strict_left_mono) (simp_all add: rq q p pow2_pos zero_less_mult_iff)
    finally show ?thesis by (simp add: x)
  qed
  have hi: "\<bar>x\<bar> < pow2 (?d + 1)"
  proof -
    have "of_int p / of_int q < pow2 (bitlen p) / of_int q"
      by (intro divide_strict_right_mono) (simp_all add: rp q)
    also have "\<dots> \<le> pow2 (bitlen p) / pow2 (bitlen q - 1)"
      by (intro divide_left_mono) (simp_all add: rq q less_imp_le pow2_pos zero_less_mult_iff)
    also have "\<dots> = pow2 (?d + 1)"
      by (simp add: pow2_diff [symmetric] algebra_simps)
    finally show ?thesis by (simp add: x)
  qed
  show ?thesis
  proof (cases "pow2 ?d \<le> \<bar>x\<bar>")
    case True
    with pq have "binade x = ?d" by (simp add: binade_def)
    with True hi show ?thesis by simp
  next
    case False
    with pq have "binade x = ?d - 1" by (simp add: binade_def)
    with False lo show ?thesis by simp
  qed
qed

lemma binade_ge_iff:
  assumes "x \<noteq> 0"
  shows "k \<le> binade x \<longleftrightarrow> pow2 k \<le> \<bar>x\<bar>"
proof
  assume "k \<le> binade x"
  then have "pow2 k \<le> pow2 (binade x)" by (rule pow2_mono)
  with binade_bounds [OF assms] show "pow2 k \<le> \<bar>x\<bar>" by simp
next
  assume a: "pow2 k \<le> \<bar>x\<bar>"
  show "k \<le> binade x"
  proof (rule ccontr)
    assume "\<not> k \<le> binade x"
    then have "binade x + 1 \<le> k" by simp
    then have "pow2 (binade x + 1) \<le> pow2 k" by (rule pow2_mono)
    with binade_bounds [OF assms] a show False by simp
  qed
qed

lemma compensated_exact: "compensated id xs f c = f + c + sum_list xs"
  by (induction xs arbitrary: f c) (simp_all add: Let_def)

lemma builtin_sum_exact: "builtin_sum id xs = sum_list xs"
  by (cases xs) (simp_all add: builtin_sum_def compensated_exact)

lemma abs_less_pow2:
  assumes "0 \<le> k"
  shows "\<bar>of_int n\<bar> < pow2 k \<longleftrightarrow> \<bar>n\<bar> < 2 ^ nat k"
proof -
  from assms have "pow2 k = of_int (2 ^ nat k)" by (simp add: pow2_def)
  moreover have "\<bar>of_int n :: rat\<bar> = of_int \<bar>n\<bar>" by simp
  ultimately show ?thesis by (simp only: of_int_less_iff)
qed

lemma int_to_float_exact:
  assumes "\<bar>n\<bar> < float_int_limit"
  shows "int_to_float id n = Inr (of_int n)"
proof (cases "n = 0")
  case True
  then show ?thesis by (simp add: int_to_float_def)
next
  case False
  then have nz: "(of_int n :: rat) \<noteq> 0" by simp
  have "(0::int) \<le> 1024" by simp
  moreover from assms have "\<bar>n\<bar> < 2 ^ nat 1024"
    by (simp only: float_int_limit_def nat_numeral)
  ultimately have "\<bar>of_int n :: rat\<bar> < pow2 1024"
    by (simp only: abs_less_pow2)
  then have "\<not> 1024 \<le> binade (of_int n)"
    using binade_ge_iff [OF nz, of 1024] by simp
  then show ?thesis by (simp add: int_to_float_def)
qed

lemma dv_in_exact_returns:
  assumes "1 \<le> index" "2 * index - 1 < float_int_limit"
  shows "\<exists>c. dv_in id cls index = Inr c"
proof -
  from assms have "\<bar>- 1 + 2 * index\<bar> < float_int_limit" by simp
  then have "int_to_float id (- 1 + 2 * index) = Inr (of_int (- 1 + 2 * index))"
    by (rule int_to_float_exact)
  with assms(1) have "case dv_in id cls index of Inl err \<Rightarrow> False | Inr c \<Rightarrow> True"
    by (cases cls) simp_all
  then show ?thesis by (cases "dv_in id cls index") simp_all
qed

lemma dv_items_exact_returns:
  "\<forall>i \<in> set is. 1 \<le> i \<and> 2 * i - 1 < float_int_limit \<Longrightarrow> \<exists>xs. dv_items id cls is = Inr xs"
proof (induction "is")
  case Nil
  then show ?case by simp
next
  case (Cons i rest)
  from Cons.prems have i: "1 \<le> i" "2 * i - 1 < float_int_limit"
    and rest: "\<forall>i \<in> set rest. 1 \<le> i \<and> 2 * i - 1 < float_int_limit"
    by simp_all
  from dv_in_exact_returns [OF i] obtain c where c: "dv_in id cls i = Inr c" by blast
  from Cons.IH [OF rest] obtain xs where xs: "dv_items id cls rest = Inr xs" by blast
  from c xs have "dv_items id cls (i # rest) = Inr (c # xs)"
    by (simp only: dv_items.simps sum.case)
  then show ?case by blast
qed



lemma dv_in_exact_real:
  assumes "1 \<le> index" "2 * index - 1 < float_int_limit" "dv_in id cls index = Inr c"
  shows "dv cls index = Inr (of_rat c)"
proof -
  from assms have "\<bar>- 1 + 2 * index\<bar> < float_int_limit" by simp
  then have "int_to_float id (- 1 + 2 * index) = Inr (of_int (- 1 + 2 * index))"
    by (rule int_to_float_exact)
  with assms(1,3) show ?thesis
    by (cases cls)
      (auto simp: of_rat_divide of_rat_diff of_rat_mult split: if_splits,
        (metis of_rat_mult of_rat_numeral_eq)+)
qed

lemma sum_dv_exact_real:
  "\<forall>i \<in> set is. 1 \<le> i \<and> 2 * i - 1 < float_int_limit \<Longrightarrow> dv_items id cls is = Inr xs \<Longrightarrow>
   sum_dv cls is acc = Inr (acc + of_rat (sum_list xs))"
proof (induction "is" arbitrary: xs acc)
  case Nil
  then show ?case by simp
next
  case (Cons i rest)
  from Cons.prems(1) have i: "1 \<le> i" "2 * i - 1 < float_int_limit"
    and rest: "\<forall>i \<in> set rest. 1 \<le> i \<and> 2 * i - 1 < float_int_limit"
    by simp_all
  from dv_in_exact_returns [OF i] obtain c where c: "dv_in id cls i = Inr c" by blast
  from dv_items_exact_returns [OF rest] obtain ys where ys: "dv_items id cls rest = Inr ys"
    by blast
  from Cons.prems(2) c ys have xs: "xs = c # ys"
    by (simp only: dv_items.simps sum.case sum.inject)
  from i c have "dv cls i = Inr (of_rat c)"
    by (rule dv_in_exact_real)
  moreover from Cons.IH [OF rest ys, of "acc + of_rat c"]
  have "sum_dv cls rest (acc + of_rat c) = Inr (acc + of_rat c + of_rat (sum_list ys))" .
  ultimately show ?case using xs by (simp add: of_rat_add add.assoc)
qed

lemma v_in_exact_real:
  assumes "0 \<le> index" "2 * index - 1 < float_int_limit" "v_in id cls index = Inr a"
  shows "v cls index = Inr (of_rat a)"
proof (cases "index = 0")
  case True
  with assms(3) show ?thesis by (auto simp: v_in_def v_def)
next
  case False
  with assms(1) have pos: "0 < index" by simp
  with assms(3) obtain xs where xs: "dv_items id cls [1..index] = Inr xs" "a = sum_list xs"
    by (auto simp: v_in_def builtin_sum_exact split: sum.splits)
  have "\<forall>i \<in> set [1..index]. 1 \<le> i \<and> 2 * i - 1 < float_int_limit"
    using assms(2) by auto
  from sum_dv_exact_real [OF this xs(1), of 0] xs(2) pos show ?thesis
    by (simp add: v_def)
qed

subsection \<open>Binary64 arithmetic\<close>









text \<open>
  C4. \<^verbatim>\<open>from_name\<close> resolves the three Sainte-Lague names, and raises \<^verbatim>\<open>KeyError\<close>
  for every other name. The name \<^verbatim>\<open>d_hondt\<close>, which the signature of \<^verbatim>\<open>from_name\<close>
  lists first, is among the names that raise: the table has no entry for it.
\<close>

theorem from_name_d_hondt_raises:
  "from_name ''d_hondt'' = Inl KeyError
   \<and> from_name ''sainte_lague'' = Inr SainteLagueApportionmentMethod
   \<and> from_name ''sainte_lague_1_2'' = Inr SainteLague12ApportionmentMethod
   \<and> from_name ''sainte_lague_1_4'' = Inr SainteLague14ApportionmentMethod"
  by (simp add: from_name_def from_name_table_def)

section \<open>The ballot store: properties\<close>

subsection \<open>Removal\<close>

lemma delete_entries_counter: "counter (snd (delete_entries i e)) = counter e"
  by (simp add: delete_entries_def)

lemma delete_entries_keys:
  "fst ` set (ballots (snd (delete_entries i e))) \<subseteq> fst ` set (ballots e)"
  using dom_delete_subset [of i "ballots e"] by (simp add: delete_entries_def)

lemma delete_entries_raises: "fst (delete_entries i e) \<noteq> Inr ()"
  by (simp add: delete_entries_def)

lemma remove_ballot_body_counter:
  "counter (snd (remove_ballot_body t ballot e)) = counter e"
  by (simp add: remove_ballot_body_def delete_entries_counter Let_def
      split: ballot_arg.splits option.splits)

lemma remove_ballot_body_keys:
  "fst ` set (ballots (snd (remove_ballot_body t ballot e))) \<subseteq> fst ` set (ballots e)"
  using delete_entries_keys
  by (simp add: remove_ballot_body_def Let_def split: ballot_arg.splits option.splits)

lemma remove_ballot_body_raises: "fst (remove_ballot_body t ballot e) \<noteq> Inr ()"
  by (simp add: remove_ballot_body_def delete_entries_raises Let_def
      split: ballot_arg.splits option.splits)

lemma delete_entries_not_RuntimeError: "fst (delete_entries i e) \<noteq> Inl RuntimeError"
  by (simp add: delete_entries_def)

lemma remove_ballot_body_not_RuntimeError:
  "fst (remove_ballot_body t ballot e) \<noteq> Inl RuntimeError"
  by (simp add: remove_ballot_body_def delete_entries_not_RuntimeError Let_def
      split: ballot_arg.splits option.splits)

lemma remove_ballot_not_RuntimeError: "fst (remove_ballot ballot e) \<noteq> Inl RuntimeError"
  by (simp add: remove_ballot_def isinstance_Ballot_def remove_ballot_body_not_RuntimeError
      split: sum.splits)

lemma remove_ballot_counter: "counter (snd (remove_ballot ballot e)) = counter e"
  by (simp add: remove_ballot_def remove_ballot_body_counter split: sum.splits)

lemma remove_ballot_keys:
  "fst ` set (ballots (snd (remove_ballot ballot e))) \<subseteq> fst ` set (ballots e)"
  using remove_ballot_body_keys
  by (simp add: remove_ballot_def split: sum.splits)

lemma remove_ballot_invariant:
  "identities_below_counter e \<Longrightarrow> identities_below_counter (snd (remove_ballot ballot e))"
proof -
  assume "identities_below_counter e"
  then have "\<forall>i \<in> fst ` set (ballots e). i < counter e"
    by (simp add: identities_below_counter_def list_all_iff)
  with remove_ballot_keys [of ballot e]
  have "\<forall>i \<in> fst ` set (ballots (snd (remove_ballot ballot e))). i < counter e"
    by blast
  then show ?thesis
    by (simp add: identities_below_counter_def list_all_iff remove_ballot_counter)
qed

text \<open>
  C6. On the election that holds the single ballot \<open>{A}\<close> under identity 0, the
  target is present, yet \<^verbatim>\<open>remove_ballot\<close> raises \<^verbatim>\<open>TypeError\<close> for the identity and for
  the value. The lines after the type test raise it as well, for either outcome
  of the test, so the failure does not hinge on line 137 alone.
\<close>

theorem remove_ballot_of_stored_ballot_raises:
  "(let e = snd (cast_ballot [''A''] (new_Election 1 SainteLagueApportionmentMethod None)) in
      ballots e = [(0, {|''A''|})]
      \<and> fst (remove_ballot (BallotIndex 0) e) = Inl TypeError
      \<and> fst (remove_ballot (BallotSet {|''A''|}) e) = Inl TypeError
      \<and> fst (remove_ballot_body False (BallotIndex 0) e) = Inl TypeError
      \<and> fst (remove_ballot_body True (BallotSet {|''A''|}) e) = Inl TypeError)"
  by code_simp

text \<open>
  C7. On the election that holds the ballot \<open>{A}\<close> twice, under identities 0 and
  1, \<^verbatim>\<open>remove_ballot\<close> called with \<open>{A}\<close> raises \<^verbatim>\<open>TypeError\<close> and both ballots stay.
  Were the type test to pass, lines 138-144 would take the later identity 1 out
  of \<^verbatim>\<open>self.ballots\<close> and then raise \<^verbatim>\<open>TypeError\<close>, the signature index still
  listing 0 and 1.
\<close>

theorem remove_ballot_by_value_of_duplicate_raises:
  "(let e = snd (cast_ballot [''A''] (snd (cast_ballot [''A'']
              (new_Election 1 SainteLagueApportionmentMethod None))));
        e' = snd (remove_ballot (BallotSet {|''A''|}) e);
        e'' = snd (remove_ballot_body True (BallotSet {|''A''|}) e)
    in map fst (ballots e) = [0, 1]
       \<and> ballot_to_indexes e [''A''] = Some [0, 1]
       \<and> fst (remove_ballot (BallotSet {|''A''|}) e) = Inl TypeError
       \<and> map fst (ballots e') = [0, 1]
       \<and> fst (remove_ballot_body True (BallotSet {|''A''|}) e) = Inl TypeError
       \<and> map fst (ballots e'') = [0]
       \<and> ballot_to_indexes e'' [''A''] = Some [0, 1])"
  by code_simp

text \<open>
  C8. Casting \<open>{A}\<close> on a fresh election returns identity 0; removing it again, by
  identity or by value, raises \<^verbatim>\<open>TypeError\<close> and leaves the ballot stored, so the
  result computed afterwards is not the one computed before the insertion.
  Were the type test to tell the identity from a set, lines 140-144 would take
  the ballot out of \<^verbatim>\<open>self.ballots\<close> and raise \<^verbatim>\<open>TypeError\<close> with the signature index
  and the counter still changed.
\<close>

theorem cast_ballot_then_remove_ballot_raises:
  "(let e0 = new_Election 1 SainteLagueApportionmentMethod None;
        e1 = snd (cast_ballot [''A''] e0);
        e2 = snd (remove_ballot (BallotIndex 0) e1);
        e3 = snd (remove_ballot (BallotSet {|''A''|}) e1);
        e4 = snd (remove_ballot_body False (BallotIndex 0) e1)
    in fst (cast_ballot [''A''] e0) = Inr 0
       \<and> fst (remove_ballot (BallotIndex 0) e1) = Inl TypeError
       \<and> fst (remove_ballot (BallotSet {|''A''|}) e1) = Inl TypeError
       \<and> ballots e0 = [] \<and> ballots e2 = [(0, {|''A''|})] \<and> ballots e3 = [(0, {|''A''|})]
       \<and> iteration_of [] (choices_of e0) \<and> fst (get_result [] e0) = Inr []
       \<and> iteration_of [''A''] (choices_of e2) \<and> fst (get_result [''A''] e2) = Inr [([''A''], 1)]
       \<and> fst (remove_ballot_body False (BallotIndex 0) e1) = Inl TypeError
       \<and> ballots e4 = []
       \<and> ballot_to_indexes e0 [''A''] = None \<and> ballot_to_indexes e4 [''A''] = Some [0]
       \<and> counter e0 = 0 \<and> counter e4 = 1)"
  by code_simp

subsection \<open>Identities\<close>

lemma cast_ballot_fresh:
  assumes "identities_below_counter e"
  shows "fst (cast_ballot approves e) = Inr (counter e)"
    and "counter (snd (cast_ballot approves e)) = counter e + 1"
    and "identities_below_counter (snd (cast_ballot approves e))"
proof -
  from assms have notin: "counter e \<notin> fst ` set (ballots e)"
    by (auto simp: identities_below_counter_def list_all_iff)
  then show "fst (cast_ballot approves e) = Inr (counter e)"
    by (simp add: cast_ballot_def Let_def)
  from notin show "counter (snd (cast_ballot approves e)) = counter e + 1"
    by (simp add: cast_ballot_def Let_def)
  from notin assms show "identities_below_counter (snd (cast_ballot approves e))"
    by (auto simp: cast_ballot_def Let_def identities_below_counter_def list_all_iff update_keys)
qed

lemma run_operations_identities:
  "identities_below_counter e \<Longrightarrow>
   sorted_wrt (<) (cast_identities (run_operations ops e))
   \<and> list_all (\<lambda>i. counter e \<le> i) (cast_identities (run_operations ops e))
   \<and> list_all (\<lambda>(oper, r). r \<noteq> Inl RuntimeError
        \<and> (case oper of Cast approves \<Rightarrow> \<exists>i. r = Inr (Some i) | Remove ballot \<Rightarrow> True))
       (run_operations ops e)"
proof (induction ops arbitrary: e)
  case Nil
  then show ?case by simp
next
  case (Cons oper rest)
  show ?case
  proof (cases oper)
    case (Cast approves)
    obtain e' where c: "cast_ballot approves e = (Inr (counter e), e')"
      using cast_ballot_fresh(1) [OF Cons.prems, of approves]
      by (cases "cast_ballot approves e") simp
    from Cons.prems c have inv: "identities_below_counter e'" and cnt: "counter e' = counter e + 1"
      using cast_ballot_fresh(2,3) [of e approves] by simp_all
    from Cons.IH [OF inv] cnt have
      "sorted_wrt (<) (cast_identities (run_operations rest e'))"
      "list_all (\<lambda>i. counter e + 1 \<le> i) (cast_identities (run_operations rest e'))"
      "list_all (\<lambda>(oper, r). r \<noteq> Inl RuntimeError
        \<and> (case oper of Cast approves \<Rightarrow> \<exists>i. r = Inr (Some i) | Remove ballot \<Rightarrow> True))
       (run_operations rest e')"
      by simp_all
    with Cast c show ?thesis
      by (auto simp: list_all_iff)
  next
    case (Remove ballot)
    obtain r e' where r: "remove_ballot ballot e = (r, e')"
      by (cases "remove_ballot ballot e") simp
    have notrt: "r \<noteq> Inl RuntimeError"
      using r remove_ballot_not_RuntimeError [of ballot e] by simp
    from Cons.prems r have inv: "identities_below_counter e'"
      using remove_ballot_invariant [of e ballot] by simp
    from r have cnt: "counter e' = counter e"
      using remove_ballot_counter [of ballot e] by simp
    from Cons.IH [OF inv] cnt Remove r notrt show ?thesis
      by (cases r) (auto simp: list_all_iff)
  qed
qed

lemma new_Election_invariant: "identities_below_counter (new_Election csize cls chs)"
  by (simp add: identities_below_counter_def new_Election_def)

text \<open>
  C10. Along every sequence of \<^verbatim>\<open>cast_ballot\<close> and \<^verbatim>\<open>remove_ballot\<close> calls on a fresh
  election, the identities that \<^verbatim>\<open>cast_ballot\<close> returns are strictly increasing,
  every \<^verbatim>\<open>cast_ballot\<close> returns an identity, and no call raises the
  \<^verbatim>\<open>RuntimeError\<close> of line 129.
\<close>

theorem cast_ballot_identities_increase:
  "sorted_wrt (<) (cast_identities (run_operations ops (new_Election csize cls chs)))
   \<and> list_all (\<lambda>(oper, r). r \<noteq> Inl RuntimeError
        \<and> (case oper of Cast approves \<Rightarrow> \<exists>i. r = Inr (Some i) | Remove ballot \<Rightarrow> True))
       (run_operations ops (new_Election csize cls chs))"
  using run_operations_identities [OF new_Election_invariant] by blast

theorem cast_ballot_identities_increase_witness:
  "cast_identities (run_operations
      [Cast [''A''], Remove (BallotIndex 0), Cast [''A'', ''B''],
       Remove (BallotSet {|''A''|}), Cast []]
      (new_Election 1 SainteLagueApportionmentMethod None)) = [0, 1, 2]
   \<and> sorted_wrt (<) (cast_identities (run_operations
      [Cast [''A''], Remove (BallotIndex 0), Cast [''A'', ''B''],
       Remove (BallotSet {|''A''|}), Cast []]
      (new_Election 1 SainteLagueApportionmentMethod None)))
   \<and> list_all (\<lambda>(oper, r). r \<noteq> Inl RuntimeError
        \<and> (case oper of Cast approves \<Rightarrow> \<exists>i. r = Inr (Some i) | Remove ballot \<Rightarrow> True))
       (run_operations
      [Cast [''A''], Remove (BallotIndex 0), Cast [''A'', ''B''],
       Remove (BallotSet {|''A''|}), Cast []]
      (new_Election 1 SainteLagueApportionmentMethod None))"
proof -
  have "cast_identities (run_operations
      [Cast [''A''], Remove (BallotIndex 0), Cast [''A'', ''B''],
       Remove (BallotSet {|''A''|}), Cast []]
      (new_Election 1 SainteLagueApportionmentMethod None)) = [0, 1, 2]"
    by code_simp
  with cast_ballot_identities_increase
         [of "[Cast [''A''], Remove (BallotIndex 0), Cast [''A'', ''B''],
               Remove (BallotSet {|''A''|}), Cast []]"
             1 SainteLagueApportionmentMethod None]
  show ?thesis by blast
qed

section \<open>Computing the result: properties\<close>

subsection \<open>Scoring and grouping\<close>

lemma committee_score_sum:
  "\<exists>ws. list_all2 (\<lambda>b w. v cls (int (fcard (b |\<inter>| cset))) = Inr w \<and> 0 \<le> w) bs ws
        \<and> committee_score cls bs cset acc = Inr (acc + sum_list ws)"
proof (induction bs arbitrary: acc)
  case Nil
  then show ?case by simp
next
  case (Cons b bs)
  obtain w where w: "v cls (int (fcard (b |\<inter>| cset))) = Inr w" "0 \<le> w"
    using v_returns [of "int (fcard (b |\<inter>| cset))" cls] by auto
  from Cons.IH [of "acc + w"] obtain ws where
    ws: "list_all2 (\<lambda>b w. v cls (int (fcard (b |\<inter>| cset))) = Inr w \<and> 0 \<le> w) bs ws"
      "committee_score cls bs cset (acc + w) = Inr (acc + w + sum_list ws)"
    by blast
  from w ws have
    "list_all2 (\<lambda>b w. v cls (int (fcard (b |\<inter>| cset))) = Inr w \<and> 0 \<le> w) (b # bs) (w # ws)"
    "committee_score cls (b # bs) cset acc = Inr (acc + sum_list (w # ws))"
    by (simp_all add: add.assoc)
  then show ?case by blast
qed

lemma sum_list_nonneg_all2:
  "list_all2 (\<lambda>b w. P b w \<and> (0::real) \<le> w) bs ws \<Longrightarrow> 0 \<le> sum_list ws"
  by (induction bs ws rule: list_all2_induct) simp_all

lemma committee_score_value:
  "committee_score (apportionment_method e) (map snd (ballots e)) (fset_of_list cc) 0
     = Inr (score_value e cc)"
  using committee_score_sum [of "apportionment_method e" "fset_of_list cc" "map snd (ballots e)" 0]
  by (auto simp: score_value_def)

lemma score_value_sum:
  "\<exists>ws. list_all2 (\<lambda>b w. v (apportionment_method e) (int (fcard (b |\<inter>| fset_of_list cc))) = Inr w
              \<and> 0 \<le> w) (map snd (ballots e)) ws
        \<and> score_value e cc = sum_list ws"
  using committee_score_sum [of "apportionment_method e" "fset_of_list cc" "map snd (ballots e)" 0]
  by (auto simp: score_value_def)

lemma score_value_nonneg: "0 \<le> score_value e cc"
  using score_value_sum [of e cc] sum_list_nonneg_all2 by fastforce

lemma rows_of_setdefault_append:
  "mset (rows_of (setdefault_append s c best)) = add_mset (c, s) (mset (rows_of best))"
  by (induction s c best rule: setdefault_append.induct) (simp_all add: rows_of_def)

lemma keys_setdefault_append:
  "set (map fst (setdefault_append s c best)) = insert s (set (map fst best))"
  by (induction s c best rule: setdefault_append.induct) auto

lemma distinct_setdefault_append:
  "distinct (map fst best) \<Longrightarrow> distinct (map fst (setdefault_append s c best))"
proof (induction s c best rule: setdefault_append.induct)
  case (1 score c)
  then show ?case by simp
next
  case (2 score c k cs rest)
  then show ?case
    using keys_setdefault_append [of score c rest] by auto
qed

lemma score_committees_rows:
  "distinct (map fst best) \<Longrightarrow>
   \<exists>best'. score_committees e combos best = Inr best' \<and> distinct (map fst best')
      \<and> mset (rows_of best') = mset (rows_of best) + mset (map (scored e) combos)"
proof (induction combos arbitrary: best)
  case Nil
  then show ?case by simp
next
  case (Cons cc combos)
  let ?b = "setdefault_append (score_value e cc) (sort cc) best"
  from Cons.prems have "distinct (map fst ?b)" by (rule distinct_setdefault_append)
  from Cons.IH [OF this] obtain best' where
    b: "score_committees e combos ?b = Inr best'" "distinct (map fst best')"
      "mset (rows_of best') = mset (rows_of ?b) + mset (map (scored e) combos)"
    by blast
  from b(1) have "score_committees e (cc # combos) best = Inr best'"
    by (simp add: committee_score_value)
  moreover from b(3) have
    "mset (rows_of best') = mset (rows_of best) + mset (map (scored e) (cc # combos))"
    by (simp add: rows_of_setdefault_append scored_def)
  ultimately show ?case using b(2) by blast
qed

lemma chains:
  "set scores \<subseteq> fst ` set best \<Longrightarrow>
   \<exists>cs ss. chain_committees best scores = Inr cs \<and> chain_scores best scores = Inr ss
     \<and> length cs = length ss
     \<and> zip cs ss = concat (map (\<lambda>s. map (\<lambda>c. (c, s)) (the (map_of best s))) scores)"
proof (induction scores)
  case Nil
  then show ?case by simp
next
  case (Cons s scores)
  from Cons.prems obtain g where g: "map_of best s = Some g"
    by (cases "map_of best s") (auto simp: map_of_eq_None_iff)
  from Cons obtain cs ss where
    IH: "chain_committees best scores = Inr cs" "chain_scores best scores = Inr ss"
      "length cs = length ss"
      "zip cs ss = concat (map (\<lambda>s. map (\<lambda>c. (c, s)) (the (map_of best s))) scores)"
    by auto
  have z: "zip g (replicate (length g) s) = map (\<lambda>c. (c, s)) g"
    by (induction g) simp_all
  from g IH z have
    "chain_committees best (s # scores) = Inr (g @ cs)"
    "chain_scores best (s # scores) = Inr (replicate (length g) s @ ss)"
    "length (g @ cs) = length (replicate (length g) s @ ss)"
    "zip (g @ cs) (replicate (length g) s @ ss)
       = concat (map (\<lambda>s. map (\<lambda>c. (c, s)) (the (map_of best s))) (s # scores))"
    by simp_all
  then show ?case by blast
qed

lemma mset_concat_map_perm:
  "mset xs = mset ys \<Longrightarrow> mset (concat (map f xs)) = mset (concat (map f ys))"
proof -
  assume a: "mset xs = mset ys"
  have "\<And>zs. mset (concat (map f zs)) = (\<Sum>z\<in>#mset zs. mset (f z))"
    by (simp add: mset_concat comp_def flip: sum_mset_sum_list)
  with a show ?thesis by simp
qed

lemma rows_of_by_keys:
  "distinct (map fst best) \<Longrightarrow>
   concat (map (\<lambda>s. map (\<lambda>c. (c, s)) (the (map_of best s))) (map fst best)) = rows_of best"
proof -
  assume d: "distinct (map fst best)"
  have "\<forall>p \<in> set best. map (\<lambda>c. (c, fst p)) (the (map_of best (fst p)))
          = (case p of (s, cs) \<Rightarrow> map (\<lambda>c. (c, s)) cs)"
  proof
    fix p assume "p \<in> set best"
    with d have "map_of best (fst p) = Some (snd p)" by simp
    then show "map (\<lambda>c. (c, fst p)) (the (map_of best (fst p)))
                 = (case p of (s, cs) \<Rightarrow> map (\<lambda>c. (c, s)) cs)"
      by (cases p) simp
  qed
  then have eq: "map (\<lambda>p. map (\<lambda>c. (c, fst p)) (the (map_of best (fst p)))) best
        = map (\<lambda>(s, cs). map (\<lambda>c. (c, s)) cs) best"
    by (simp cong: map_cong)
  have "concat (map (\<lambda>s. map (\<lambda>c. (c, s)) (the (map_of best s))) (map fst best))
        = concat (map (\<lambda>p. map (\<lambda>c. (c, fst p)) (the (map_of best (fst p)))) best)"
    by (simp add: comp_def)
  also have "\<dots> = concat (map (\<lambda>(s, cs). map (\<lambda>c. (c, s)) cs) best)"
    by (simp only: eq)
  finally show ?thesis by (simp only: rows_of_def)
qed

lemma result_frame_rows:
  assumes "distinct (map fst best)"
  shows "\<exists>frame. result_frame best = Inr (sort_values frame) \<and> mset frame = mset (rows_of best)"
proof -
  let ?scores = "sorted_reverse (map fst best)"
  have perm: "mset ?scores = mset (map fst best)"
    by (simp add: sorted_reverse_def)
  then have "set ?scores = set (map fst best)"
    by (metis set_mset_mset)
  then have "set ?scores \<subseteq> fst ` set best" by simp
  from chains [OF this] obtain cs ss where
    c: "chain_committees best ?scores = Inr cs" "chain_scores best ?scores = Inr ss"
      "length cs = length ss"
      "zip cs ss = concat (map (\<lambda>s. map (\<lambda>c. (c, s)) (the (map_of best s))) ?scores)"
    by blast
  from c have "result_frame best = Inr (sort_values (zip cs ss))"
    by (simp add: result_frame_def DataFrame_def Let_def)
  moreover have "mset (zip cs ss) = mset (rows_of best)"
  proof -
    have "mset (zip cs ss)
          = mset (concat (map (\<lambda>s. map (\<lambda>c. (c, s)) (the (map_of best s))) (map fst best)))"
      unfolding c(4) by (rule mset_concat_map_perm [OF perm])
    also have "\<dots> = mset (rows_of best)"
      by (simp only: rows_of_by_keys [OF assms])
    finally show ?thesis .
  qed
  ultimately show ?thesis by blast
qed

lemma get_result_rows:
  assumes "0 \<le> committee_size e"
  shows "\<exists>frame. get_result pool e = (Inr (sort_values frame), e)
           \<and> mset frame = mset (map (scored e) (combinations_nat pool (nat (committee_size e))))"
proof -
  let ?combos = "combinations_nat pool (nat (committee_size e))"
  from assms have c: "combinations pool (committee_size e) = Inr ?combos"
    by (simp add: combinations_def)
  obtain best where b: "score_committees e ?combos [] = Inr best" "distinct (map fst best)"
      "mset (rows_of best) = mset (map (scored e) ?combos)"
    using score_committees_rows [of "[]" e ?combos] by (auto simp: rows_of_def)
  from result_frame_rows [OF b(2)] obtain frame where
    f: "result_frame best = Inr (sort_values frame)" "mset frame = mset (rows_of best)"
    by blast
  from c b f have "get_result pool e = (Inr (sort_values frame), e)"
    by (simp add: get_result_def)
  with f(2) b(3) show ?thesis by auto
qed

subsection \<open>Combinations and sorting\<close>

lemma combinations_nat_length:
  "cc \<in> set (combinations_nat pool r) \<Longrightarrow> length cc = r"
  by (induction pool r arbitrary: cc rule: combinations_nat.induct) auto

lemma combinations_nat_subset:
  "cc \<in> set (combinations_nat pool r) \<Longrightarrow> set cc \<subseteq> set pool"
  by (induction pool r arbitrary: cc rule: combinations_nat.induct) fastforce+

lemma combinations_nat_distinct:
  "cc \<in> set (combinations_nat pool r) \<Longrightarrow> distinct pool \<Longrightarrow> distinct cc"
proof (induction pool r arbitrary: cc rule: combinations_nat.induct)
  case (1 pool)
  then show ?case by simp
next
  case (2 r)
  then show ?case by simp
next
  case (3 x pool r)
  from "3.prems" have x: "x \<notin> set pool" and d: "distinct pool" by simp_all
  from "3.prems"(1) consider
    (head) t where "cc = x # t" "t \<in> set (combinations_nat pool r)"
    | (skip) "cc \<in> set (combinations_nat pool (Suc r))"
    by auto
  then show ?case
  proof cases
    case head
    with x combinations_nat_subset [of t pool r] have "x \<notin> set t" by blast
    with head "3.IH"(1) [OF head(2) d] show ?thesis by simp
  next
    case skip
    with "3.IH"(2) d show ?thesis by simp
  qed
qed

lemma combinations_nat_members:
  "cc \<in> set (combinations_nat pool r) \<Longrightarrow>
   length cc = r \<and> set cc \<subseteq> set pool \<and> (distinct pool \<longrightarrow> distinct cc)"
  using combinations_nat_length combinations_nat_subset combinations_nat_distinct by blast

lemma combinations_nat_too_many:
  "length pool < r \<Longrightarrow> combinations_nat pool r = []"
  by (induction pool r rule: combinations_nat.induct) auto

lemma combinations_nat_sets:
  "distinct pool \<Longrightarrow> set ` set (combinations_nat pool r) = {A. A \<subseteq> set pool \<and> card A = r}"
proof (induction pool r rule: combinations_nat.induct)
  case (1 pool)
  have "card A = 0 \<longleftrightarrow> A = {}" if "A \<subseteq> set pool" for A
  proof -
    from that have "finite A" by (rule finite_subset) simp
    then show ?thesis by simp
  qed
  then show ?case by auto
next
  case (2 r)
  then show ?case by auto
next
  case (3 x pool r)
  then have x: "x \<notin> set pool" and d: "distinct pool" by simp_all
  have fin: "\<And>A. A \<subseteq> insert x (set pool) \<Longrightarrow> finite A"
    using finite_subset [of _ "insert x (set pool)"] by simp
  have "{A. A \<subseteq> insert x (set pool) \<and> card A = Suc r}
        = insert x ` {A. A \<subseteq> set pool \<and> card A = r} \<union> {A. A \<subseteq> set pool \<and> card A = Suc r}"
    (is "?L = ?M \<union> ?R")
  proof (intro equalityI subsetI)
    fix A assume "A \<in> ?L"
    then have A: "A \<subseteq> insert x (set pool)" "card A = Suc r" by simp_all
    show "A \<in> ?M \<union> ?R"
    proof (cases "x \<in> A")
      case True
      from A(1) have "A - {x} \<subseteq> set pool" by auto
      moreover from True A(2) fin [OF A(1)] have "card (A - {x}) = r" by simp
      moreover from True have "A = insert x (A - {x})" by auto
      ultimately show ?thesis by blast
    next
      case False
      with A show ?thesis by auto
    qed
  next
    fix A assume "A \<in> ?M \<union> ?R"
    then show "A \<in> ?L"
    proof
      assume "A \<in> ?M"
      then obtain B where B: "A = insert x B" "B \<subseteq> set pool" "card B = r" by auto
      with x have "x \<notin> B" "finite B" using finite_subset [OF B(2)] by auto
      with B show ?thesis by auto
    next
      assume "A \<in> ?R"
      then show ?thesis by auto
    qed
  qed
  moreover have "set ` set (combinations_nat (x # pool) (Suc r))
      = insert x ` (set ` set (combinations_nat pool r)) \<union> set ` set (combinations_nat pool (Suc r))"
    by (auto simp: image_Un image_image)
  ultimately show ?case using 3 d by simp
qed

lemma combinations_nat_distinct_sets:
  "distinct pool \<Longrightarrow> distinct (map set (combinations_nat pool r))"
proof (induction pool r rule: combinations_nat.induct)
  case (1 pool)
  then show ?case by simp
next
  case (2 r)
  then show ?case by simp
next
  case (3 x pool r)
  then have x: "x \<notin> set pool" and d: "distinct pool" by simp_all
  have sub: "\<And>cc k. cc \<in> set (combinations_nat pool k) \<Longrightarrow> x \<notin> set cc"
    using combinations_nat_members x by blast
  from 3 d have d1: "distinct (map set (combinations_nat pool r))"
    and d2: "distinct (map set (combinations_nat pool (Suc r)))" by simp_all
  have "inj_on (insert x) (set (map set (combinations_nat pool r)))"
    using sub by (auto simp: inj_on_def dest!: insert_ident [THEN iffD1, rotated 2])
  with d1 have "distinct (map (insert x \<circ> set) (combinations_nat pool r))"
    by (auto simp: distinct_map intro: comp_inj_on)
  then have a: "distinct (map set (map ((#) x) (combinations_nat pool r)))"
    by (simp add: comp_def)
  have "set (map set (map ((#) x) (combinations_nat pool r)))
          \<inter> set (map set (combinations_nat pool (Suc r))) = {}"
    using sub by auto
  with a d2 show ?case by simp
qed

lemma scored_cong:
  assumes "set cc = set cc'" "distinct cc" "distinct cc'"
  shows "scored e cc = scored e cc'"
proof -
  from assms have "sort cc = sort cc'"
    by (intro sorted_distinct_set_unique) simp_all
  moreover from assms(1) have "fset_of_list cc = fset_of_list cc'"
    by (simp add: fset_of_list.rep_eq flip: fset_inject)
  ultimately show ?thesis by (simp add: scored_def score_value_def)
qed

lemma scored_combinations_perm:
  assumes "distinct pool" "distinct pool'" "set pool = set pool'"
  shows "mset (map (scored e) (combinations_nat pool r))
         = mset (map (scored e) (combinations_nat pool' r))"
proof -
  define G where "G A = scored e (sorted_list_of_set A)" for A
  have G: "map (scored e) (combinations_nat p r) = map G (map set (combinations_nat p r))"
    if "distinct p" for p
  proof -
    have "\<forall>cc \<in> set (combinations_nat p r). scored e cc = G (set cc)"
    proof
      fix cc assume "cc \<in> set (combinations_nat p r)"
      with that have "distinct cc" using combinations_nat_members by blast
      then show "scored e cc = G (set cc)"
        unfolding G_def by (intro scored_cong) simp_all
    qed
    then show ?thesis by (simp cong: map_cong)
  qed
  have "set (map set (combinations_nat pool r)) = set (map set (combinations_nat pool' r))"
    using assms by (simp add: combinations_nat_sets)
  then have "mset (map set (combinations_nat pool r)) = mset (map set (combinations_nat pool' r))"
    using assms combinations_nat_distinct_sets set_eq_iff_mset_eq_distinct by blast
  then have "image_mset G (mset (map set (combinations_nat pool r)))
             = image_mset G (mset (map set (combinations_nat pool' r)))"
    by simp
  then show ?thesis
    unfolding G [OF assms(1)] G [OF assms(2)] by (simp only: mset_map)
qed

lemma sort_values_sorted: "sorted_wrt row_before (sort_values frame)"
proof -
  have "sorted (map (\<lambda>(c, s). (- s, c)) (sort_values frame))"
    by (simp add: sort_values_def)
  then have "sorted_wrt (\<lambda>x y. (\<lambda>(c, s). (- s, c)) x \<le> (\<lambda>(c, s). (- s, c)) y) (sort_values frame)"
    by (simp only: sorted_map)
  then show ?thesis
    by (rule sorted_wrt_mono_rel [rotated]) (auto simp: row_before_def less_eq_prod_def)
qed

lemma sort_values_perm:
  assumes "mset frame = mset frame'"
  shows "sort_values frame = sort_values frame'"
  unfolding sort_values_def
proof (rule sort_key_inj_key_eq)
  show "mset frame = mset (sort_key (\<lambda>(c, s). (- s, c)) frame')"
    using assms by simp
  show "inj_on (\<lambda>(c, s). (- s, c)) (set frame)"
    by (auto simp: inj_on_def)
  show "sorted (map (\<lambda>(c, s). (- s, c)) (sort_key (\<lambda>(c, s). (- s, c)) frame'))"
    by simp
qed

lemma sort_values_set: "set (sort_values frame) = set frame"
  by (simp add: sort_values_def)

lemma sort_values_distinct_committees:
  "distinct (map fst (sort_values frame)) = distinct (map fst frame)"
proof -
  have "mset (map fst (sort_values frame)) = mset (map fst frame)"
    by (simp add: sort_values_def)
  then show ?thesis by (metis distinct_count_atmost_1 mset_eq_setD count_mset_0_iff)
qed

subsection \<open>The result\<close>

lemma get_result_negative:
  "committee_size e < 0 \<Longrightarrow> get_result pool e = (Inl ValueError, e)"
  by (simp add: get_result_def combinations_def)

lemma get_result_unchanged: "snd (get_result pool e) = e"
  by (simp add: get_result_def split: sum.splits)

lemma get_result_members:
  assumes "fst (get_result pool e) = Inr frame"
  shows "0 \<le> committee_size e"
    and "set frame = scored e ` set (combinations_nat pool (nat (committee_size e)))"
    and "\<exists>f. frame = sort_values f
           \<and> mset f = mset (map (scored e) (combinations_nat pool (nat (committee_size e))))"
proof -
  show nonneg: "0 \<le> committee_size e"
  proof (rule ccontr)
    assume "\<not> 0 \<le> committee_size e"
    then have "get_result pool e = (Inl ValueError, e)" by (simp add: get_result_negative)
    with assms show False by simp
  qed
  from get_result_rows [OF nonneg, of pool] assms
  show f: "\<exists>f. frame = sort_values f
           \<and> mset f = mset (map (scored e) (combinations_nat pool (nat (committee_size e))))"
    by auto
  then obtain f where f: "frame = sort_values f"
    "mset f = mset (map (scored e) (combinations_nat pool (nat (committee_size e))))"
    by blast
  from f(2) have "set f = set (map (scored e) (combinations_nat pool (nat (committee_size e))))"
    by (rule mset_eq_setD)
  with f(1) show "set frame = scored e ` set (combinations_nat pool (nat (committee_size e)))"
    by (simp add: sort_values_set)
qed



text \<open>
  C2. A frame that \<^verbatim>\<open>get_result\<close> returns is ordered by falling score and, among
  equal scores, by rising committee tuple; no committee occurs twice; every
  committee is a sorted tuple of exactly \<^verbatim>\<open>committee_size\<close> distinct candidates, and
  every score is at least 0.
\<close>

theorem get_result_ordered:
  assumes "iteration_of pool (choices_of e)" "fst (get_result pool e) = Inr frame"
  shows "sorted_wrt row_before frame \<and> distinct (map fst frame)
         \<and> list_all (\<lambda>(c, s). int (length c) = committee_size e \<and> distinct c \<and> sorted c \<and> 0 \<le> s)
             frame"
proof -
  let ?combos = "combinations_nat pool (nat (committee_size e))"
  from assms(1) have d: "distinct pool" by (simp add: iteration_of_def)
  note m = get_result_members [OF assms(2)]
  from m(3) obtain f where f: "frame = sort_values f" "mset f = mset (map (scored e) ?combos)"
    by blast
  have 1: "sorted_wrt row_before frame"
    unfolding f(1) by (rule sort_values_sorted)
  have "distinct (map (sort \<circ> id) ?combos)"
  proof -
    have "inj_on sort (set ?combos)"
    proof (rule inj_onI)
      fix a b assume "a \<in> set ?combos" "b \<in> set ?combos" "sort a = sort b"
      then have "set a = set b" by (metis set_sort)
      with combinations_nat_distinct_sets [OF d, of "nat (committee_size e)"]
        \<open>a \<in> set ?combos\<close> \<open>b \<in> set ?combos\<close>
      show "a = b" by (auto simp: distinct_map inj_on_def)
    qed
    moreover have "distinct ?combos"
      using combinations_nat_distinct_sets [OF d, of "nat (committee_size e)"]
      by (simp add: distinct_map)
    ultimately show ?thesis by (simp add: distinct_map)
  qed
  then have "distinct (map fst (map (scored e) ?combos))"
    by (simp add: comp_def scored_def)
  moreover have "mset (map fst f) = mset (map fst (map (scored e) ?combos))"
    using f(2) by (metis mset_map)
  ultimately have "distinct (map fst f)"
    by (metis mset_eq_imp_distinct_iff)
  then have 2: "distinct (map fst frame)"
    unfolding f(1) by (simp add: sort_values_distinct_committees)
  have 3: "list_all (\<lambda>(c, s). int (length c) = committee_size e \<and> distinct c \<and> sorted c \<and> 0 \<le> s)
             frame"
    unfolding list_all_iff
  proof
    fix row assume "row \<in> set frame"
    with m(2) obtain cc where cc: "cc \<in> set ?combos" "row = scored e cc" by auto
    from combinations_nat_members [OF cc(1)] d
    have "length cc = nat (committee_size e)" "distinct cc" by simp_all
    with m(1) cc(2) show
      "case row of (c, s) \<Rightarrow> int (length c) = committee_size e \<and> distinct c \<and> sorted c \<and> 0 \<le> s"
      by (simp add: scored_def score_value_nonneg)
  qed
  from 1 2 3 show ?thesis by blast
qed

theorem get_result_ordered_witness:
  "iteration_of [''C'', ''A'', ''B''] (choices_of three_ballots)
   \<and> fst (get_result [''C'', ''A'', ''B''] three_ballots) = Inr ([([''A'', ''B''], 7 / 3), ([''B'', ''C''], 7 / 3), ([''A'', ''C''], 2)] :: DataFrame)
   \<and> sorted_wrt row_before ([([''A'', ''B''], 7 / 3), ([''B'', ''C''], 7 / 3), ([''A'', ''C''], 2)] :: DataFrame)
   \<and> distinct (map fst ([([''A'', ''B''], 7 / 3), ([''B'', ''C''], 7 / 3), ([''A'', ''C''], 2)] :: DataFrame))
   \<and> list_all (\<lambda>(c, s). int (length c) = committee_size three_ballots \<and> distinct c
                  \<and> sorted c \<and> 0 \<le> s) ([([''A'', ''B''], 7 / 3), ([''B'', ''C''], 7 / 3), ([''A'', ''C''], 2)] :: DataFrame)"
proof -
  have i: "iteration_of [''C'', ''A'', ''B''] (choices_of three_ballots)"
    by code_simp
  have r: "fst (get_result [''C'', ''A'', ''B''] three_ballots) = Inr ([([''A'', ''B''], 7 / 3), ([''B'', ''C''], 7 / 3), ([''A'', ''C''], 2)] :: DataFrame)"
    by code_simp
  from get_result_ordered [OF i r] i r show ?thesis by blast
qed

text \<open>
  C5, as amended. \<^verbatim>\<open>get_result\<close> raises \<^verbatim>\<open>ValueError\<close> when \<^verbatim>\<open>committee_size\<close> is
  negative. When \<^verbatim>\<open>committee_size\<close> is 0 it returns the frame whose only row is the
  empty committee with score 0. When \<^verbatim>\<open>committee_size\<close> exceeds the number of
  candidates in the (filtered) universe it returns the empty frame.
\<close>

theorem get_result_size_edges:
  "(committee_size e < 0 \<longrightarrow> fst (get_result pool e) = Inl ValueError)
   \<and> (committee_size e = 0 \<longrightarrow> fst (get_result pool e) = Inr [([], 0)])
   \<and> (iteration_of pool (choices_of e) \<longrightarrow> int (fcard (choices_of e)) < committee_size e \<longrightarrow>
        fst (get_result pool e) = Inr [])"
proof (intro conjI impI)
  assume "committee_size e < 0"
  then show "fst (get_result pool e) = Inl ValueError" by (simp add: get_result_negative)
next
  assume z: "committee_size e = 0"
  have "score_value e [] = 0"
  proof -
    from score_value_sum [of e "[]"] obtain ws where
      ws: "list_all2 (\<lambda>b w. v (apportionment_method e) (int (fcard (b |\<inter>| fset_of_list []))) = Inr w
              \<and> 0 \<le> w) (map snd (ballots e)) ws" "score_value e [] = sum_list ws"
      by blast
    from ws(1) have "list_all2 (\<lambda>b w. w = 0) (map snd (ballots e)) ws"
      by (rule list_all2_mono) (simp add: v_zero fcard_fempty)
    then have "\<forall>w \<in> set ws. w = 0"
      by (induction rule: list_all2_induct) simp_all
    then have "sum_list ws = 0" by (induction ws) simp_all
    with ws(2) show ?thesis by simp
  qed
  with z committee_score_value [of e "[]"]
  show "fst (get_result pool e) = Inr [([], 0)]"
    by (simp add: get_result_def combinations_def result_frame_def sorted_reverse_def
        DataFrame_def sort_values_def)
next
  assume it: "iteration_of pool (choices_of e)"
    and big: "int (fcard (choices_of e)) < committee_size e"
  from it have dp: "distinct pool" and "fset_of_list pool = choices_of e"
    by (simp_all add: iteration_of_def)
  then have "fcard (choices_of e) = card (set pool)"
    by (metis fcard.rep_eq fset_of_list.rep_eq)
  with dp have "length pool = fcard (choices_of e)"
    by (simp only: distinct_card)
  with big have "combinations_nat pool (nat (committee_size e)) = []"
    by (intro combinations_nat_too_many) linarith
  with big show "fst (get_result pool e) = Inr []"
    by (simp add: get_result_def combinations_def result_frame_def sorted_reverse_def
        DataFrame_def sort_values_def)
qed

theorem get_result_size_zero_counterexample:
  "committee_size (new_Election 0 SainteLagueApportionmentMethod None) \<le> 0
   \<and> iteration_of [] (choices_of (new_Election 0 SainteLagueApportionmentMethod None))
   \<and> fst (get_result [] (new_Election 0 SainteLagueApportionmentMethod None)) = Inr [([], 0)]
   \<and> fst (get_result [] (new_Election 0 SainteLagueApportionmentMethod None)) \<noteq> Inl ValueError"
  by code_simp

theorem get_result_size_edges_witness:
  "committee_size (three_ballots\<lparr>committee_size := - 1\<rparr>) < 0
   \<and> fst (get_result [''C'', ''A'', ''B''] (three_ballots\<lparr>committee_size := - 1\<rparr>)) = Inl ValueError
   \<and> committee_size (three_ballots\<lparr>committee_size := 0\<rparr>) = 0
   \<and> fst (get_result [''C'', ''A'', ''B''] (three_ballots\<lparr>committee_size := 0\<rparr>)) = Inr [([], 0)]
   \<and> iteration_of [''C'', ''A'', ''B''] (choices_of (three_ballots\<lparr>committee_size := 4\<rparr>))
   \<and> int (fcard (choices_of (three_ballots\<lparr>committee_size := 4\<rparr>)))
        < committee_size (three_ballots\<lparr>committee_size := 4\<rparr>)
   \<and> fst (get_result [''C'', ''A'', ''B''] (three_ballots\<lparr>committee_size := 4\<rparr>)) = Inr []"
proof -
  have a: "committee_size (three_ballots\<lparr>committee_size := - 1\<rparr>) < 0"
    and b: "committee_size (three_ballots\<lparr>committee_size := 0\<rparr>) = 0"
    by simp_all
  have c: "iteration_of [''C'', ''A'', ''B''] (choices_of (three_ballots\<lparr>committee_size := 4\<rparr>))"
    by code_simp
  have d: "int (fcard (choices_of (three_ballots\<lparr>committee_size := 4\<rparr>)))
             < committee_size (three_ballots\<lparr>committee_size := 4\<rparr>)"
    by code_simp
  from get_result_size_edges [of "three_ballots\<lparr>committee_size := - 1\<rparr>" "[''C'', ''A'', ''B'']"]
    get_result_size_edges [of "three_ballots\<lparr>committee_size := 0\<rparr>" "[''C'', ''A'', ''B'']"]
    get_result_size_edges [of "three_ballots\<lparr>committee_size := 4\<rparr>" "[''C'', ''A'', ''B'']"]
    a b c d
  show ?thesis by blast
qed

text \<open>
  C9. Two successive calls of \<^verbatim>\<open>get_result\<close> return the same frame (or raise the
  same exception), in whatever order each call happens to iterate the set of
  candidates, and both leave the election as it was: ballots, signature index
  and counter.
\<close>

theorem get_result_repeatable:
  assumes "iteration_of pool (choices_of e)" "iteration_of pool' (choices_of e)"
  shows "(case get_result pool e of
            (r1, e1) \<Rightarrow> (case get_result pool' e1 of
               (r2, e2) \<Rightarrow> r1 = r2 \<and> e1 = e \<and> e2 = e))"
proof -
  have eq: "fst (get_result pool e) = fst (get_result pool' e)"
  proof (cases "0 \<le> committee_size e")
    case False
    then show ?thesis by (simp add: get_result_negative)
  next
    case True
    let ?k = "nat (committee_size e)"
    from get_result_rows [OF True, of pool] obtain f where
      f: "get_result pool e = (Inr (sort_values f), e)"
         "mset f = mset (map (scored e) (combinations_nat pool ?k))"
      by blast
    from get_result_rows [OF True, of pool'] obtain f' where
      f': "get_result pool' e = (Inr (sort_values f'), e)"
         "mset f' = mset (map (scored e) (combinations_nat pool' ?k))"
      by blast
    from assms have "distinct pool" "distinct pool'" "set pool = set pool'"
      by (auto simp: iteration_of_def fset_of_list.rep_eq simp flip: fset_inject)
    from scored_combinations_perm [OF this, of e ?k] f(2) f'(2) have "mset f = mset f'"
      by simp
    then have "sort_values f = sort_values f'" by (rule sort_values_perm)
    with f(1) f'(1) show ?thesis by simp
  qed
  obtain r1 e1 where 1: "get_result pool e = (r1, e1)" by (cases "get_result pool e")
  with get_result_unchanged [of pool e] have e1: "e1 = e" by simp
  obtain r2 e2 where 2: "get_result pool' e1 = (r2, e2)" by (cases "get_result pool' e1")
  with get_result_unchanged [of pool' e1] e1 have e2: "e2 = e" by simp
  from eq 1 2 e1 have "r1 = r2" by simp
  with 1 2 e1 e2 show ?thesis by simp
qed

theorem get_result_repeatable_witness:
  "iteration_of [''C'', ''A'', ''B''] (choices_of three_ballots)
   \<and> iteration_of [''B'', ''A'', ''C''] (choices_of three_ballots)
   \<and> (case get_result [''C'', ''A'', ''B''] three_ballots of
         (r1, e1) \<Rightarrow> (case get_result [''B'', ''A'', ''C''] e1 of
            (r2, e2) \<Rightarrow> r1 = r2 \<and> e1 = three_ballots \<and> e2 = three_ballots))"
proof -
  have i: "iteration_of [''C'', ''A'', ''B''] (choices_of three_ballots)"
    by code_simp
  have j: "iteration_of [''B'', ''A'', ''C''] (choices_of three_ballots)"
    by code_simp
  from get_result_repeatable [OF i j] i j show ?thesis by blast
qed


end
